theory Spec2Isabelle
  imports Complex_Main
begin

section \<open>Data model\<close>

text \<open>
  The module \<^verbatim>\<open>Lib/cu2qu/__init__.py\<close> works on points given as pairs of numbers and on
  cubic curves given as sequences of four points.  Coordinates, parameters and tolerances
  are modelled as real numbers (the arithmetic of the source is Python's, where \<^verbatim>\<open>/\<close> is
  true division because of \<^verbatim>\<open>from __future__ import division\<close>); rounding of machine
  floats is outside this model.  A cubic is a 4-tuple, so the unpacking
  \<^verbatim>\<open>a, b, c, d = p\<close> always succeeds.  A quadratic spline is a list of points.
\<close>

type_synonym point = "real \<times> real"
type_synonym cubic = "point \<times> point \<times> point \<times> point"
type_synonym quadratic = "point \<times> point \<times> point"

text \<open>
  Exceptions are values.  \<^verbatim>\<open>ApproxNotFoundError(curve, error)\<close> stores the curve and the
  error, which may be \<^verbatim>\<open>None\<close>.
\<close>

datatype error =
    ValueError
  | ZeroDivisionError
  | AssertionError
  | TypeError
  | ApproxNotFoundError cubic "real option"

text \<open>The result of a \<^verbatim>\<open>for ... else\<close> loop: left by \<^verbatim>\<open>break\<close>, or run to its end.\<close>

datatype ('b, 's) for_result = Break 'b | NoBreak 's

definition MAX_N :: nat where
  "MAX_N = 100"

text \<open>Indexing a cubic: \<^verbatim>\<open>p[0]\<close>, \<^verbatim>\<open>p[1]\<close>, \<^verbatim>\<open>p[2]\<close>, \<^verbatim>\<open>p[3]\<close>.\<close>

fun p_0 :: "cubic \<Rightarrow> point" where
  "p_0 (a, b, c, d) = a"

fun p_1 :: "cubic \<Rightarrow> point" where
  "p_1 (a, b, c, d) = b"

fun p_2 :: "cubic \<Rightarrow> point" where
  "p_2 (a, b, c, d) = c"

fun p_3 :: "cubic \<Rightarrow> point" where
  "p_3 (a, b, c, d) = d"

section \<open>Geometry primitives\<close>

text \<open>\<^verbatim>\<open>vector(p1, p2)\<close>: the vector from p1 to p2.\<close>

fun vector :: "point \<Rightarrow> point \<Rightarrow> point" where
  "vector (x1, y1) (x2, y2) = (x2 - x1, y2 - y1)"

fun translate :: "point \<Rightarrow> point \<Rightarrow> point" where
  "translate (px, py) (vx, vy) = (px + vx, py + vy)"

fun scale :: "point \<Rightarrow> real \<Rightarrow> point" where
  "scale (vx, vy) n = (vx * n, vy * n)"

text \<open>\<^verbatim>\<open>math.hypot\<close>, the Euclidean norm of \<open>(x, y)\<close>.\<close>

definition hypot :: "real \<Rightarrow> real \<Rightarrow> real" where
  "hypot x y = sqrt (x * x + y * y)"

fun dist_pt :: "point \<Rightarrow> point \<Rightarrow> real" where
  "dist_pt (x1, y1) (x2, y2) = hypot (x1 - x2) (y1 - y2)"

fun dot :: "point \<Rightarrow> point \<Rightarrow> real" where
  "dot (a1, a2) (b1, b2) = a1 * b1 + a2 * b2"

definition lerp :: "real \<Rightarrow> real \<Rightarrow> real \<Rightarrow> real" where
  "lerp a b t = a * (1 - t) + b * t"

fun lerp_pt :: "point \<Rightarrow> point \<Rightarrow> real \<Rightarrow> point" where
  "lerp_pt (x1, y1) (x2, y2) t = (lerp x1 x2 t, lerp y1 y2 t)"

fun quadratic_bezier_at :: "quadratic \<Rightarrow> real \<Rightarrow> point" where
  "quadratic_bezier_at ((x1, y1), (x2, y2), (x3, y3)) t =
     (lerp (lerp x1 x2 t) (lerp x2 x3 t) t,
      lerp (lerp y1 y2 t) (lerp y2 y3 t) t)"

fun cubic_bezier_at :: "cubic \<Rightarrow> real \<Rightarrow> point" where
  "cubic_bezier_at ((x1, y1), (x2, y2), (x3, y3), (x4, y4)) t =
     (lerp (lerp (lerp x1 x2 t) (lerp x2 x3 t) t)
           (lerp (lerp x2 x3 t) (lerp x3 x4 t) t) t,
      lerp (lerp (lerp y1 y2 t) (lerp y2 y3 t) t)
           (lerp (lerp y2 y3 t) (lerp y3 y4 t) t) t)"

text \<open>\<^verbatim>\<open>cubic_approx(p, t)\<close>: one quadratic for a cubic, its control point blended at t.\<close>

definition cubic_approx :: "cubic \<Rightarrow> real \<Rightarrow> quadratic" where
  "cubic_approx p t =
     (let p1 = lerp_pt (p_0 p) (p_1 p) 1.5;
          p2 = lerp_pt (p_3 p) (p_2 p) 1.5
      in (p_0 p, lerp_pt p1 p2 t, p_3 p))"

section \<open>Tangent intersection\<close>

text \<open>
  \<^verbatim>\<open>calc_intersect(p)\<close>.  Python's division raises \<^verbatim>\<open>ZeroDivisionError\<close> exactly when
  the divisor is zero; the source turns it into \<^verbatim>\<open>ValueError\<close>.
\<close>

definition calc_intersect :: "cubic \<Rightarrow> error + point" where
  "calc_intersect q =
     (case q of (a, b, c, d) \<Rightarrow>
        let ab = vector a b;
            cd = vector c d;
            p = (- snd ab, fst ab)
        in if dot p cd = 0 then Inl ValueError
           else let h = dot p (vector c a) / dot p cd
                in Inr (translate c (scale cd h)))"

section \<open>Splitting a cubic\<close>

text \<open>
  Modelled from the spec: \<^verbatim>\<open>bezierTools.splitCubicAtT\<close> belongs to the fontTools library
  and is not part of this repository's sources.  The spec says that the cubic is split
  into n sub-curves at the n - 1 given interior parameters by the standard subdivision of
  a cubic Bezier curve.  The model follows the library's way of doing it: the curve is
  turned into polynomial coefficients, each piece between two consecutive parameters
  (with 0 put in front and 1 at the end) is reparametrised, and turned back into points.
\<close>

definition calcCubicParameters :: "cubic \<Rightarrow> point \<times> point \<times> point \<times> point" where
  "calcCubicParameters q =
     (case q of ((x1, y1), (x2, y2), (x3, y3), (x4, y4)) \<Rightarrow>
        let dx = x1; dy = y1;
            cx = (x2 - dx) * 3; cy = (y2 - dy) * 3;
            bx = (x3 - x2) * 3 - cx; by = (y3 - y2) * 3 - cy;
            ax = x4 - dx - cx - bx; ay = y4 - dy - cy - by
        in ((ax, ay), (bx, by), (cx, cy), (dx, dy)))"

definition calcCubicPoints :: "point \<times> point \<times> point \<times> point \<Rightarrow> cubic" where
  "calcCubicPoints q =
     (case q of ((ax, ay), (bx, by), (cx, cy), (dx, dy)) \<Rightarrow>
        let x1 = dx; y1 = dy;
            x2 = cx / 3 + dx; y2 = cy / 3 + dy;
            x3 = (bx + cx) / 3 + x2; y3 = (by + cy) / 3 + y2;
            x4 = ax + dx + cx + bx; y4 = ay + dy + cy + by
        in ((x1, y1), (x2, y2), (x3, y3), (x4, y4)))"

definition split_piece :: "point \<times> point \<times> point \<times> point \<Rightarrow> real \<Rightarrow> real \<Rightarrow> cubic" where
  "split_piece q t1 t2 =
     (case q of ((ax, ay), (bx, by), (cx, cy), (dx, dy)) \<Rightarrow>
        let delta = t2 - t1;
            delta_2 = delta * delta;
            delta_3 = delta * delta_2;
            t1_2 = t1 * t1;
            t1_3 = t1 * t1_2;
            a1x = ax * delta_3;
            a1y = ay * delta_3;
            b1x = (3 * ax * t1 + bx) * delta_2;
            b1y = (3 * ay * t1 + by) * delta_2;
            c1x = (2 * bx * t1 + cx + 3 * ax * t1_2) * delta;
            c1y = (2 * by * t1 + cy + 3 * ay * t1_2) * delta;
            d1x = ax * t1_3 + bx * t1_2 + cx * t1 + dx;
            d1y = ay * t1_3 + by * t1_2 + cy * t1 + dy
        in calcCubicPoints ((a1x, a1y), (b1x, b1y), (c1x, c1y), (d1x, d1y)))"

definition splitCubicAtT :: "cubic \<Rightarrow> real list \<Rightarrow> cubic list" where
  "splitCubicAtT q ts =
     (let abcd = calcCubicParameters q;
          ts' = [0] @ ts @ [1]
      in map (\<lambda>i. split_piece abcd (ts' ! i) (ts' ! (i + 1))) [0..<length ts' - 1])"

section \<open>Spline constructor\<close>

text \<open>
  \<^verbatim>\<open>cubic_approx_spline(p, n)\<close>; \<open>None\<close> is Python's \<^verbatim>\<open>None\<close>.  The handler catches
  \<^verbatim>\<open>ValueError\<close>, the only exception \<^verbatim>\<open>calc_intersect\<close> raises (lemma
  \<open>calc_intersect_error\<close> below).  For \<open>n \<noteq> 1\<close> the divisions by \<open>n\<close> and by \<open>n - 1\<close> are
  evaluated only for \<open>n \<ge> 2\<close> (and \<open>0 / (-1)\<close> for \<open>n = 0\<close>), so they never fail.
\<close>

definition cubic_approx_spline :: "cubic \<Rightarrow> nat \<Rightarrow> point list option" where
  "cubic_approx_spline p n =
     (if n = 1 then
        (case calc_intersect p of
           Inl e \<Rightarrow> None
         | Inr p1 \<Rightarrow> Some [p_0 p, p1, p_3 p])
      else
        let ts = map (\<lambda>i. real i / real n) [1..<n];
            segments = splitCubicAtT p ts
        in Some ([p_0 p]
             @ map (\<lambda>i. fst (snd (cubic_approx (segments ! i) (real i / (real n - 1)))))
                   [0..<length segments]
             @ [p_3 p]))"

section \<open>Error sampler\<close>

text \<open>
  \<^verbatim>\<open>curve_spline_dist(bezier, spline)\<close>.  The triple of segment \<open>i\<close>: its first point is
  \<^verbatim>\<open>spline[0]\<close> for \<open>i = 1\<close> and the last point of the previous triple otherwise.  With
  \<open>n = len(spline) - 2\<close> and \<open>1 \<le> i \<le> n\<close> the indices \<open>i\<close> and \<open>i + 1\<close> are in range.
\<close>

definition spline_segment :: "point list \<Rightarrow> int \<Rightarrow> int \<Rightarrow> quadratic \<Rightarrow> quadratic" where
  "spline_segment spline n i segment =
     (if i = 1 then spline ! 0 else snd (snd segment),
      spline ! nat i,
      if i = n then spline ! nat (i + 1)
      else lerp_pt (spline ! nat i) (spline ! nat (i + 1)) 0.5)"

text \<open>
  The inner loop \<^verbatim>\<open>for j in range(steps)\<close>, which updates \<^verbatim>\<open>error\<close>.  It runs only for
  \<open>steps > 0\<close>, inside the outer loop, which runs only for \<open>n > 0\<close>: its divisions never fail.
\<close>

definition sample_segment ::
  "cubic \<Rightarrow> quadratic \<Rightarrow> int \<Rightarrow> int \<Rightarrow> int \<Rightarrow> real \<Rightarrow> real" where
  "sample_segment bezier segment n steps i error =
     fold (\<lambda>j err.
             let p1 = cubic_bezier_at bezier
                        ((real_of_int j / real_of_int steps + real_of_int i - 1) / real_of_int n);
                 p2 = quadratic_bezier_at segment (real_of_int j / real_of_int steps)
             in max err (dist_pt p1 p2))
          [0..steps - 1] error"

text \<open>
  The outer loop \<^verbatim>\<open>for i in range(1, n + 1)\<close> carries \<^verbatim>\<open>error\<close> and \<^verbatim>\<open>segment\<close>.
  \<^verbatim>\<open>segment\<close> is unbound before the first iteration and not read there (\<open>i = 1\<close>), so its
  initial value below is a placeholder.  \<^verbatim>\<open>TOTAL_STEPS // n\<close> is floor division and raises
  \<^verbatim>\<open>ZeroDivisionError\<close> for \<open>n = 0\<close>, a spline of two points.
\<close>

definition TOTAL_STEPS :: int where
  "TOTAL_STEPS = 20"

definition curve_spline_dist :: "cubic \<Rightarrow> point list \<Rightarrow> error + real" where
  "curve_spline_dist bezier spline =
     (let n = int (length spline) - 2
      in if n = 0 then Inl ZeroDivisionError
         else
           let steps = TOTAL_STEPS div n
           in Inr (fst (fold (\<lambda>i (error, segment).
                                let segment' = spline_segment spline n i segment
                                in (sample_segment bezier segment' n steps i error, segment'))
                             [1..n] (0, ((0, 0), (0, 0), (0, 0))))))"

section \<open>Search driver\<close>

text \<open>
  The loop of \<^verbatim>\<open>curve_to_quadratic\<close> over the remaining values of \<open>n\<close>, with the variables
  \<^verbatim>\<open>spline\<close> and \<^verbatim>\<open>error\<close> as state.
\<close>

fun curve_to_quadratic_for ::
  "cubic \<Rightarrow> real \<Rightarrow> nat list \<Rightarrow> point list option \<times> real option
     \<Rightarrow> error + (point list \<times> real, point list option \<times> real option) for_result" where
  "curve_to_quadratic_for p max_err [] st = Inr (NoBreak st)"
| "curve_to_quadratic_for p max_err (n # ns) (spline, error) =
     (case cubic_approx_spline p n of
        None \<Rightarrow> curve_to_quadratic_for p max_err ns (None, error)
      | Some s \<Rightarrow>
          (case curve_spline_dist p s of
             Inl e \<Rightarrow> Inl e
           | Inr err \<Rightarrow>
               if err \<le> max_err then Inr (Break (s, err))
               else curve_to_quadratic_for p max_err ns (Some s, Some err)))"

definition curve_to_quadratic :: "cubic \<Rightarrow> real \<Rightarrow> error + point list \<times> real" where
  "curve_to_quadratic p max_err =
     (case curve_to_quadratic_for p max_err [1..<MAX_N + 1] (None, None) of
        Inl e \<Rightarrow> Inl e
      | Inr (NoBreak (spline, error)) \<Rightarrow> Inl (ApproxNotFoundError p error)
      | Inr (Break (spline, error)) \<Rightarrow> Inr (spline, error))"

text \<open>
  \<^verbatim>\<open>curves_to_quadratic\<close>.  \<^verbatim>\<open>all(splines)\<close> tests truth values: \<^verbatim>\<open>None\<close> and the
  empty list are false.
\<close>

definition truthy :: "point list option \<Rightarrow> bool" where
  "truthy s = (case s of None \<Rightarrow> False | Some l \<Rightarrow> l \<noteq> [])"

text \<open>
  \<^verbatim>\<open>[curve_spline_dist(c, s) for c, s in zip(curves, splines)]\<close>, evaluated from left to
  right; the first exception ends it.  It is evaluated only when every spline is present.
\<close>

fun spline_dists :: "(cubic \<times> point list option) list \<Rightarrow> error + real list" where
  "spline_dists [] = Inr []"
| "spline_dists ((c, None) # rest) = Inl TypeError"
| "spline_dists ((c, Some s) # rest) =
     (case curve_spline_dist c s of
        Inl e \<Rightarrow> Inl e
      | Inr err \<Rightarrow> (case spline_dists rest of Inl e \<Rightarrow> Inl e | Inr errs \<Rightarrow> Inr (err # errs)))"

text \<open>One iteration of the loop over \<open>n\<close>, on the state \<^verbatim>\<open>(splines, errors)\<close>.\<close>

definition curves_to_quadratic_body ::
  "cubic list \<Rightarrow> real list \<Rightarrow> nat \<Rightarrow> point list option list \<times> real option list
     \<Rightarrow> error + (point list option list \<times> real option list,
                  point list option list \<times> real option list) for_result" where
  "curves_to_quadratic_body curves max_errors n st =
     (let splines = map (\<lambda>c. cubic_approx_spline c n) curves
      in if \<not> list_all truthy splines then Inr (NoBreak (splines, snd st))
         else
           (case spline_dists (zip curves splines) of
              Inl e \<Rightarrow> Inl e
            | Inr errs \<Rightarrow>
                let errors = map Some errs
                in if list_all (\<lambda>(err, max_err). err \<le> max_err) (zip errs max_errors)
                   then Inr (Break (splines, errors))
                   else Inr (NoBreak (splines, errors))))"

fun curves_to_quadratic_for ::
  "cubic list \<Rightarrow> real list \<Rightarrow> nat list \<Rightarrow> point list option list \<times> real option list
     \<Rightarrow> error + (point list option list \<times> real option list,
                  point list option list \<times> real option list) for_result" where
  "curves_to_quadratic_for curves max_errors [] st = Inr (NoBreak st)"
| "curves_to_quadratic_for curves max_errors (n # ns) st =
     (case curves_to_quadratic_body curves max_errors n st of
        Inl e \<Rightarrow> Inl e
      | Inr (Break r) \<Rightarrow> Inr (Break r)
      | Inr (NoBreak st') \<Rightarrow> curves_to_quadratic_for curves max_errors ns st')"

text \<open>
  The \<^verbatim>\<open>else\<close> branch of the loop: raise for the first curve, in input order, whose spline
  is \<^verbatim>\<open>None\<close> or whose error exceeds its tolerance.  Comparing an error that is still
  \<^verbatim>\<open>None\<close> with a number is a \<^verbatim>\<open>TypeError\<close> (Python 3).
\<close>

fun raise_offending ::
  "(cubic \<times> point list option \<times> real option \<times> real) list \<Rightarrow> error option" where
  "raise_offending [] = None"
| "raise_offending ((c, s, error, max_err) # rest) =
     (if s = None then Some (ApproxNotFoundError c error)
      else (case error of
              None \<Rightarrow> Some TypeError
            | Some e \<Rightarrow>
                if e > max_err then Some (ApproxNotFoundError c error)
                else raise_offending rest))"

definition curves_to_quadratic ::
  "cubic list \<Rightarrow> real list \<Rightarrow> error + point list option list \<times> real option list" where
  "curves_to_quadratic curves max_errors =
     (let num_curves = length curves
      in if length max_errors \<noteq> num_curves then Inl AssertionError
         else
           (case curves_to_quadratic_for curves max_errors [1..<MAX_N + 1]
                   (replicate num_curves None, replicate num_curves None) of
              Inl e \<Rightarrow> Inl e
            | Inr (Break (splines, errors)) \<Rightarrow> Inr (splines, errors)
            | Inr (NoBreak (splines, errors)) \<Rightarrow>
                (case raise_offending (zip curves (zip splines (zip errors max_errors))) of
                   Some e \<Rightarrow> Inl e
                 | None \<Rightarrow> Inr (splines, errors))))"

section \<open>Notions used in the statements\<close>

text \<open>
  The formula for \<^verbatim>\<open>calc_intersect\<close> as the specification words it, with
  \<open>h = dot(p, c - a) / dot(p, cd)\<close>; \<open>c - a\<close> is \<open>vector a c\<close>.
\<close>

definition calc_intersect_as_specified :: "cubic \<Rightarrow> point" where
  "calc_intersect_as_specified q =
     (case q of (a, b, c, d) \<Rightarrow>
        let ab = vector a b;
            cd = vector c d;
            p = (- snd ab, fst ab);
            h = dot p (vector a c) / dot p cd
        in translate c (scale cd h))"

text \<open>
  Segment count \<open>n\<close> satisfies the tolerance for curve \<open>p\<close>: the constructor yields a
  spline and its sampled error is at most \<open>max_err\<close>.
\<close>

definition satisfies :: "cubic \<Rightarrow> real \<Rightarrow> nat \<Rightarrow> bool" where
  "satisfies p max_err n =
     (\<exists>s e. cubic_approx_spline p n = Some s \<and> curve_spline_dist p s = Inr e \<and> e \<le> max_err)"

text \<open>Every curve of a batch satisfies its own tolerance at the shared segment count.\<close>

definition all_within :: "cubic list \<Rightarrow> real list \<Rightarrow> nat \<Rightarrow> bool" where
  "all_within curves max_errors n =
     (\<forall>i < length curves. satisfies (curves ! i) (max_errors ! i) n)"



text \<open>Curves used as examples.\<close>

definition straight_cubic :: cubic where
  "straight_cubic = ((0, 0), (1, 0), (2, 0), (3, 0))"

definition arch_cubic :: cubic where
  "arch_cubic = ((0, 0), (2, 2), (4, 2), (6, 0))"

definition bump_cubic :: cubic where
  "bump_cubic = ((0, 0), (0, 1), (1, 1), (1, 0))"

section \<open>Tangent intersection: properties\<close>

lemma calc_intersect_error: "calc_intersect q = Inl e \<Longrightarrow> e = ValueError"
  by (auto simp: calc_intersect_def Let_def split: prod.splits if_splits)

text \<open>The point returned lies on the line through a and b and on the line through c and d.\<close>

lemma calc_intersect_on_lines:
  assumes "calc_intersect (a, b, c, d) = Inr x"
  shows "dot (- snd (vector a b), fst (vector a b)) (vector a x) = 0
       \<and> dot (- snd (vector c d), fst (vector c d)) (vector c x) = 0"
  using assms
  apply (cases a; cases b; cases c; cases d; cases x)
  apply (auto simp: calc_intersect_def Let_def split: if_splits)
   apply (simp_all add: field_simps)
  done

text \<open>
  C6, as amended.  For lines that are not parallel, \<^verbatim>\<open>calc_intersect\<close> takes the normal
  \<open>p = (-ab.y, ab.x)\<close> of \<open>ab = b - a\<close>, sets \<open>h = dot(p, a - c) / dot(p, cd)\<close> with
  \<open>cd = d - c\<close>, where \<open>a - c\<close> is \<^verbatim>\<open>vector(c, a)\<close>, and returns \<open>c + h * cd\<close>.
\<close>

theorem calc_intersect_formula:
  assumes "dot (- snd (vector a b), fst (vector a b)) (vector c d) \<noteq> 0"
  shows "calc_intersect (a, b, c, d) =
           Inr (translate c (scale (vector c d)
                  (dot (- snd (vector a b), fst (vector a b)) (vector c a)
                   / dot (- snd (vector a b), fst (vector a b)) (vector c d))))"
  using assms by (simp add: calc_intersect_def Let_def)

theorem calc_intersect_formula_witness:
  "dot (- snd (vector (0, 0) (1, 0)), fst (vector (0, 0) (1, 0))) (vector (1, 1) (1, 2)) \<noteq> 0
   \<and> calc_intersect ((0, 0), (1, 0), (1, 1), (1, 2)) = Inr (1, 0)"
  using calc_intersect_formula [of "(0, 0)" "(1, 0)" "(1, 1)" "(1, 2)"] by simp

text \<open>
  C6, as stated, fails: with \<open>c - a\<close> in the numerator the point has the wrong sign of
  \<open>h\<close>.  The lines through (0,0),(1,0) and through (1,1),(1,2) meet in (1,0), which the
  code returns; the stated formula gives (1,2).
\<close>

theorem calc_intersect_stated_formula_fails:
  "dot (- snd (vector (0, 0) (1, 0)), fst (vector (0, 0) (1, 0))) (vector (1, 1) (1, 2)) \<noteq> 0
   \<and> calc_intersect ((0, 0), (1, 0), (1, 1), (1, 2)) = Inr (1, 0)
   \<and> calc_intersect_as_specified ((0, 0), (1, 0), (1, 1), (1, 2)) = (1, 2)
   \<and> calc_intersect ((0, 0), (1, 0), (1, 1), (1, 2))
       \<noteq> Inr (calc_intersect_as_specified ((0, 0), (1, 0), (1, 1), (1, 2)))"
  by (simp add: calc_intersect_def calc_intersect_as_specified_def)

section \<open>Spline constructor: properties\<close>

lemma length_splitCubicAtT: "length (splitCubicAtT q ts) = length ts + 1"
  by (simp add: splitCubicAtT_def Let_def)

lemma cubic_approx_spline_length:
  assumes "1 \<le> n" and "cubic_approx_spline p n = Some s"
  shows "length s = n + 2"
proof (cases "n = 1")
  case True
  with assms(2) show ?thesis
    by (auto simp: cubic_approx_spline_def split: sum.splits)
next
  case False
  with assms have "length s = length (splitCubicAtT p (map (\<lambda>i. real i / real n) [1..<n])) + 2"
    by (auto simp: cubic_approx_spline_def Let_def)
  with assms(1) show ?thesis
    by (simp add: length_splitCubicAtT)
qed

lemma cubic_approx_spline_ends:
  assumes "cubic_approx_spline p n = Some s"
  shows "hd s = p_0 p \<and> last s = p_3 p"
  using assms
  by (auto simp: cubic_approx_spline_def Let_def split: sum.splits if_splits)

lemma cubic_approx_spline_some:
  assumes "2 \<le> n"
  shows "\<exists>s. cubic_approx_spline p n = Some s"
  using assms by (simp add: cubic_approx_spline_def Let_def)

lemma cubic_approx_spline_1:
  "cubic_approx_spline p 1 = None \<longleftrightarrow>
     dot (- snd (vector (p_0 p) (p_1 p)), fst (vector (p_0 p) (p_1 p))) (vector (p_2 p) (p_3 p)) = 0"
  by (cases p) (auto simp: cubic_approx_spline_def calc_intersect_def Let_def split: sum.splits)

lemma straight_cubic_1: "cubic_approx_spline straight_cubic 1 = None"
  using cubic_approx_spline_1 [of straight_cubic] by (simp add: straight_cubic_def)

lemma straight_cubic_2:
  "cubic_approx_spline straight_cubic 2 = Some [(0, 0), (3 / 4, 0), (9 / 4, 0), (3, 0)]"
  by (simp add: straight_cubic_def cubic_approx_spline_def splitCubicAtT_def
      calcCubicParameters_def split_piece_def calcCubicPoints_def cubic_approx_def lerp_def
      Let_def upt_rec numeral_2_eq_2)

lemma arch_cubic_1: "cubic_approx_spline arch_cubic 1 = Some [(0, 0), (3, 3), (6, 0)]"
  by (simp add: arch_cubic_def cubic_approx_spline_def calc_intersect_def)

text \<open>
  C2.  For \<open>n \<ge> 1\<close>, a spline returned by \<^verbatim>\<open>cubic_approx_spline(p, n)\<close> has \<open>n + 2\<close>
  points, starts at the first point of \<open>p\<close> and ends at its last point.
\<close>

theorem cubic_approx_spline_shape:
  assumes "1 \<le> n" and "cubic_approx_spline p n = Some s"
  shows "length s = n + 2 \<and> hd s = p_0 p \<and> last s = p_3 p"
  using assms cubic_approx_spline_length [of n p s] cubic_approx_spline_ends [of p n s]
  by simp

theorem cubic_approx_spline_shape_witness:
  "(1::nat) \<le> 2
   \<and> cubic_approx_spline straight_cubic 2 = Some [(0, 0), (3 / 4, 0), (9 / 4, 0), (3, 0)]
   \<and> length ([(0, 0), (3 / 4, 0), (9 / 4, 0), (3, 0)] :: point list) = 2 + 2
   \<and> hd ([(0, 0), (3 / 4, 0), (9 / 4, 0), (3, 0)] :: point list) = p_0 straight_cubic
   \<and> last ([(0, 0), (3 / 4, 0), (9 / 4, 0), (3, 0)] :: point list) = p_3 straight_cubic"
  using cubic_approx_spline_shape [of 2 straight_cubic, OF _ straight_cubic_2]
    straight_cubic_2 by simp

text \<open>
  C4.  \<^verbatim>\<open>cubic_approx_spline(p, 1)\<close> is absent exactly when
  \<open>dot((-ab.y, ab.x), cd)\<close> is zero, for \<open>ab = p1 - p0\<close> and \<open>cd = p3 - p2\<close>; for every
  \<open>n \<ge> 2\<close> a spline is returned; and for the cubic (0,0),(1,0),(2,0),(3,0) the result
  at \<open>n = 1\<close> is absent.
\<close>

theorem cubic_approx_spline_absent:
  "(cubic_approx_spline p 1 = None \<longleftrightarrow>
      dot (- snd (vector (p_0 p) (p_1 p)), fst (vector (p_0 p) (p_1 p)))
          (vector (p_2 p) (p_3 p)) = 0)
   \<and> (\<forall>n \<ge> 2. \<exists>s. cubic_approx_spline p n = Some s)
   \<and> cubic_approx_spline ((0, 0), (1, 0), (2, 0), (3, 0)) 1 = None"
  using cubic_approx_spline_1 [of p] cubic_approx_spline_some [of _ p]
    straight_cubic_1 [unfolded straight_cubic_def]
  by blast

theorem cubic_approx_spline_absent_witness:
  "cubic_approx_spline bump_cubic 1 = None
   \<and> (2::nat) \<le> 3
   \<and> (\<exists>s. cubic_approx_spline bump_cubic 3 = Some s)"
proof -
  have "dot (- snd (vector (p_0 bump_cubic) (p_1 bump_cubic)),
             fst (vector (p_0 bump_cubic) (p_1 bump_cubic)))
            (vector (p_2 bump_cubic) (p_3 bump_cubic)) = 0"
    by (simp add: bump_cubic_def)
  then show ?thesis
    using cubic_approx_spline_absent [of bump_cubic] by simp
qed

section \<open>Error sampler: properties\<close>

lemma sample_segment_nosteps: "steps \<le> 0 \<Longrightarrow> sample_segment b seg n steps i e = e"
  by (simp add: sample_segment_def)

lemma fold_max_ge: "(e::real) \<le> fold (\<lambda>j err. max err (f j)) js e"
proof (induction js arbitrary: e)
  case Nil
  show ?case by simp
next
  case (Cons j js)
  have "e \<le> max e (f j)" by simp
  also have "\<dots> \<le> fold (\<lambda>j err. max err (f j)) js (max e (f j))" by (rule Cons.IH)
  finally show ?case by simp
qed

lemma sample_segment_ge: "e \<le> sample_segment b seg n steps i e"
  unfolding sample_segment_def Let_def by (rule fold_max_ge)

lemma outer_fold_ge:
  "e \<le> fst (fold (\<lambda>i (error, segment).
                     let segment' = spline_segment spline n i segment
                     in (sample_segment bezier segment' n steps i error, segment'))
                  is (e, seg))"
proof (induction "is" arbitrary: e seg)
  case Nil
  show ?case by simp
next
  case (Cons i "is")
  have "e \<le> sample_segment bezier (spline_segment spline n i seg) n steps i e"
    by (rule sample_segment_ge)
  also have "\<dots> \<le> fst (fold (\<lambda>i (error, segment).
                     let segment' = spline_segment spline n i segment
                     in (sample_segment bezier segment' n steps i error, segment'))
                  is (sample_segment bezier (spline_segment spline n i seg) n steps i e,
                       spline_segment spline n i seg))"
    by (rule Cons.IH)
  finally show ?case by (simp add: Let_def)
qed

lemma outer_fold_nosteps:
  assumes "steps \<le> 0"
  shows "fst (fold (\<lambda>i (error, segment).
                     let segment' = spline_segment spline n i segment
                     in (sample_segment bezier segment' n steps i error, segment'))
                  is (e, seg)) = e"
  using assms
  by (induction "is" arbitrary: e seg) (simp_all add: Let_def sample_segment_nosteps)

lemma curve_spline_dist_ok:
  assumes "length spline \<noteq> 2"
  shows "\<exists>e. curve_spline_dist bezier spline = Inr e \<and> 0 \<le> e"
  using assms outer_fold_ge [of 0]
  by (simp add: curve_spline_dist_def Let_def)

lemma curve_spline_dist_zero:
  assumes "23 \<le> length spline"
  shows "curve_spline_dist bezier spline = Inr 0"
proof -
  have "TOTAL_STEPS div (int (length spline) - 2) = 0"
    using assms by (simp add: TOTAL_STEPS_def div_pos_pos_trivial)
  with assms show ?thesis
    using outer_fold_nosteps [where steps = 0 and e = 0]
    by (simp add: curve_spline_dist_def Let_def)
qed

lemma dist_of_candidate:
  assumes "1 \<le> n" and "cubic_approx_spline p n = Some s"
  shows "\<exists>e. curve_spline_dist p s = Inr e \<and> 0 \<le> e"
proof -
  from assms have "length s = n + 2" by (rule cubic_approx_spline_length)
  then have "length s \<noteq> 2" using assms(1) by simp
  then show ?thesis by (rule curve_spline_dist_ok)
qed

lemma satisfies_21:
  assumes "21 \<le> n" and "0 \<le> max_err"
  shows "satisfies p max_err n"
proof -
  from assms(1) obtain s where s: "cubic_approx_spline p n = Some s"
    using cubic_approx_spline_some [of n p] by auto
  with assms(1) have "length s = n + 2"
    using cubic_approx_spline_length [of n p s] by simp
  with assms(1) have "curve_spline_dist p s = Inr 0"
    by (simp add: curve_spline_dist_zero)
  with s assms(2) show ?thesis
    by (auto simp: satisfies_def)
qed

lemma straight_cubic_dist:
  "curve_spline_dist straight_cubic [(0, 0), (3 / 4, 0), (9 / 4, 0), (3, 0)] = Inr 0"
  by (simp add: straight_cubic_def curve_spline_dist_def TOTAL_STEPS_def spline_segment_def
      sample_segment_def hypot_def lerp_def upto.simps Let_def)

lemma arch_cubic_dist: "curve_spline_dist arch_cubic [(0, 0), (3, 3), (6, 0)] = Inr 0"
  by (simp add: arch_cubic_def curve_spline_dist_def TOTAL_STEPS_def spline_segment_def
      sample_segment_def hypot_def lerp_def upto.simps Let_def)

text \<open>
  C10.  For a candidate spline of \<open>n \<ge> 21\<close> segments the step count \<open>20 // n\<close> is 0, no
  sample is taken, and \<^verbatim>\<open>curve_spline_dist\<close> returns 0 whatever the curve and the
  spline are; so the candidate passes every tolerance that is not negative.
\<close>

theorem curve_spline_dist_unsampled:
  assumes "length spline = n + 2" and "21 \<le> n"
  shows "TOTAL_STEPS div int n = 0
       \<and> curve_spline_dist bezier spline = Inr 0
       \<and> (\<forall>max_err \<ge> 0. \<exists>e. curve_spline_dist bezier spline = Inr e \<and> e \<le> max_err)"
proof -
  from assms have "TOTAL_STEPS div int n = 0"
    by (simp add: TOTAL_STEPS_def div_pos_pos_trivial)
  moreover from assms have "curve_spline_dist bezier spline = Inr 0"
    by (simp add: curve_spline_dist_zero)
  ultimately show ?thesis by simp
qed

theorem curve_spline_dist_unsampled_witness:
  "length (replicate 23 (5, 5) :: point list) = 21 + 2 \<and> (21::nat) \<le> 21
   \<and> curve_spline_dist bump_cubic (replicate 23 (5, 5)) = Inr 0
   \<and> (0::real) \<le> 0"
  using curve_spline_dist_unsampled [of "replicate 23 (5, 5)" 21 bump_cubic] by simp

section \<open>Single-curve search: properties\<close>

lemma for_no_error:
  assumes "1 \<le> a"
  shows "curve_to_quadratic_for p max_err [a..<b] st \<noteq> Inl e"
  using assms
proof (induction "b - a" arbitrary: a st)
  case 0
  then show ?case by simp
next
  case (Suc k)
  then have ab: "a < b" and k: "k = b - Suc a" by simp_all
  obtain spline error where st: "st = (spline, error)" by (cases st)
  have IH: "curve_to_quadratic_for p max_err [Suc a..<b] st' \<noteq> Inl e" for st'
    using Suc.hyps(1) [OF k] by simp
  show ?case
  proof (cases "cubic_approx_spline p a")
    case None
    with ab st IH show ?thesis by (simp add: upt_conv_Cons)
  next
    case (Some s)
    with Suc.prems obtain err where "curve_spline_dist p s = Inr err"
      using dist_of_candidate by blast
    with Some ab st IH show ?thesis by (simp add: upt_conv_Cons)
  qed
qed

lemma for_break:
  assumes "curve_to_quadratic_for p max_err [a..<b] st = Inr (Break (s, err))"
  shows "\<exists>n. a \<le> n \<and> n < b \<and> cubic_approx_spline p n = Some s
            \<and> curve_spline_dist p s = Inr err \<and> err \<le> max_err
            \<and> (\<forall>m. a \<le> m \<and> m < n \<longrightarrow> \<not> satisfies p max_err m)"
  using assms
proof (induction "b - a" arbitrary: a st)
  case 0
  then show ?case by simp
next
  case (Suc k)
  then have ab: "a < b" and k: "k = b - Suc a" by simp_all
  obtain spline error where st: "st = (spline, error)" by (cases st)
  note run = Suc.prems [unfolded upt_conv_Cons [OF ab] st]
  have step: "\<exists>n. a \<le> n \<and> n < b \<and> cubic_approx_spline p n = Some s
            \<and> curve_spline_dist p s = Inr err \<and> err \<le> max_err
            \<and> (\<forall>m. a \<le> m \<and> m < n \<longrightarrow> \<not> satisfies p max_err m)"
    if rest: "curve_to_quadratic_for p max_err [Suc a..<b] st' = Inr (Break (s, err))"
      and na: "\<not> satisfies p max_err a" for st'
  proof -
    from Suc.hyps(1) [OF k rest] obtain n where n: "Suc a \<le> n" "n < b"
      "cubic_approx_spline p n = Some s" "curve_spline_dist p s = Inr err" "err \<le> max_err"
      "\<forall>m. Suc a \<le> m \<and> m < n \<longrightarrow> \<not> satisfies p max_err m" by blast
    have "\<not> satisfies p max_err m" if "a \<le> m \<and> m < n" for m
      using that na n(6) by (cases "m = a") auto
    with n show ?thesis by (intro exI [of _ n]) auto
  qed
  show ?case
  proof (cases "cubic_approx_spline p a")
    case None
    then have "\<not> satisfies p max_err a" by (simp add: satisfies_def)
    moreover from run None
    have "curve_to_quadratic_for p max_err [Suc a..<b] (None, error) = Inr (Break (s, err))"
      by simp
    ultimately show ?thesis by (intro step)
  next
    case (Some s')
    show ?thesis
    proof (cases "curve_spline_dist p s'")
      case (Inl e)
      with run Some show ?thesis by simp
    next
      case (Inr e')
      show ?thesis
      proof (cases "e' \<le> max_err")
        case True
        with run Some Inr have "s' = s" "e' = err" by simp_all
        with Some Inr True ab show ?thesis by (intro exI [of _ a]) auto
      next
        case False
        with Some Inr have "\<not> satisfies p max_err a" by (simp add: satisfies_def)
        moreover from run Some Inr False
        have "curve_to_quadratic_for p max_err [Suc a..<b] (Some s', Some e') = Inr (Break (s, err))"
          by simp
        ultimately show ?thesis by (intro step)
      qed
    qed
  qed
qed

lemma for_nobreak:
  assumes "curve_to_quadratic_for p max_err [a..<b] st = Inr (NoBreak st')"
  shows "\<forall>m. a \<le> m \<and> m < b \<longrightarrow> \<not> satisfies p max_err m"
  using assms
proof (induction "b - a" arbitrary: a st)
  case 0
  then show ?case by auto
next
  case (Suc k)
  then have ab: "a < b" and k: "k = b - Suc a" by simp_all
  obtain spline error where st: "st = (spline, error)" by (cases st)
  note run = Suc.prems [unfolded upt_conv_Cons [OF ab] st]
  have "\<exists>st''. curve_to_quadratic_for p max_err [Suc a..<b] st'' = Inr (NoBreak st')
          \<and> \<not> satisfies p max_err a"
    using run
    by (auto simp: satisfies_def split: option.splits sum.splits if_splits)
  then obtain st'' where rest: "curve_to_quadratic_for p max_err [Suc a..<b] st'' = Inr (NoBreak st')"
    and na: "\<not> satisfies p max_err a" by blast
  from Suc.hyps(1) [OF k rest] have "\<forall>m. Suc a \<le> m \<and> m < b \<longrightarrow> \<not> satisfies p max_err m" .
  with na show ?case
    by (metis Suc_leI le_neq_implies_less)
qed

lemma for_succeeds:
  assumes "0 \<le> max_err"
  shows "\<exists>s e. curve_to_quadratic_for p max_err [1..<MAX_N + 1] (None, None) = Inr (Break (s, e))"
proof (cases "curve_to_quadratic_for p max_err [1..<MAX_N + 1] (None, None)")
  case (Inl e)
  then show ?thesis using for_no_error [of 1 p max_err "MAX_N + 1" "(None, None)" e] by simp
next
  case (Inr r)
  show ?thesis
  proof (cases r)
    case (Break x)
    with Inr show ?thesis by (cases x) simp
  next
    case (NoBreak st')
    with Inr have "\<not> satisfies p max_err 21"
      using for_nobreak [of p max_err 1 "MAX_N + 1" "(None, None)" st']
      by (simp add: MAX_N_def)
    with assms show ?thesis using satisfies_21 [of 21 max_err p] by simp
  qed
qed

lemma curve_to_quadratic_break:
  assumes "curve_to_quadratic p max_err = Inr (spline, error)"
  shows "curve_to_quadratic_for p max_err [1..<MAX_N + 1] (None, None)
           = Inr (Break (spline, error))"
  using assms
  by (auto simp del: upt_Suc simp: curve_to_quadratic_def split: sum.splits for_result.splits)

lemma curve_to_quadratic_at_1:
  assumes "cubic_approx_spline p 1 = Some s" and "curve_spline_dist p s = Inr e"
    and "e \<le> max_err"
  shows "curve_to_quadratic p max_err = Inr (s, e)"
proof -
  have "[1..<MAX_N + 1] = 1 # [2..<MAX_N + 1]"
    by (simp add: MAX_N_def upt_conv_Cons del: upt_Suc)
  with assms show ?thesis
    by (simp add: curve_to_quadratic_def del: upt_Suc)
qed

lemma curve_to_quadratic_at_2:
  assumes "cubic_approx_spline p 1 = None"
    and "cubic_approx_spline p 2 = Some s" and "curve_spline_dist p s = Inr e"
    and "e \<le> max_err"
  shows "curve_to_quadratic p max_err = Inr (s, e)"
proof -
  have "[1..<MAX_N + 1] = 1 # 2 # [3..<MAX_N + 1]"
    by (simp add: MAX_N_def upt_conv_Cons del: upt_Suc)
  with assms show ?thesis
    by (simp add: curve_to_quadratic_def del: upt_Suc)
qed

lemma arch_cubic_result: "curve_to_quadratic arch_cubic 0 = Inr ([(0, 0), (3, 3), (6, 0)], 0)"
  using curve_to_quadratic_at_1 [OF arch_cubic_1 arch_cubic_dist] by simp


section \<open>A curve with a cubic term\<close>

text \<open>
  For \<open>2 \<le> n \<le> 20\<close> the sampler takes the sample \<open>j = 0\<close> of the second segment: the
  curve at \<open>1 / n\<close> against the implied on-curve point between the first two control
  points of the spline.
\<close>

lemma quadratic_bezier_at_0: "quadratic_bezier_at seg 0 = fst seg"
proof -
  obtain x1 y1 x2 y2 x3 y3 where "seg = ((x1, y1), (x2, y2), (x3, y3))"
    by (metis prod.collapse)
  then show ?thesis by (simp add: lerp_def)
qed

lemma fold_max_first: "(f j :: real) \<le> fold (\<lambda>j err. max err (f j)) (j # js) e"
proof -
  have "f j \<le> max e (f j)" by simp
  also have "\<dots> \<le> fold (\<lambda>j err. max err (f j)) js (max e (f j))" by (rule fold_max_ge)
  finally show ?thesis by simp
qed

lemma sample_segment_first:
  assumes "1 \<le> steps"
  shows "dist_pt (cubic_bezier_at b ((real_of_int i - 1) / real_of_int n))
                 (quadratic_bezier_at seg 0)
           \<le> sample_segment b seg n steps i e"
proof -
  from assms have "[0..steps - 1] = 0 # [1..steps - 1]"
    by (simp add: upto_rec1)
  then show ?thesis
    unfolding sample_segment_def Let_def
    using fold_max_first [of "\<lambda>j. dist_pt (cubic_bezier_at b
                        ((real_of_int j / real_of_int steps + real_of_int i - 1) / real_of_int n))
                        (quadratic_bezier_at seg (real_of_int j / real_of_int steps))" 0 "[1..steps - 1]" e]
    by simp
qed

lemma joint_sample:
  assumes len: "length s = n + 2" and n: "2 \<le> n" "n \<le> 20"
    and d: "curve_spline_dist b s = Inr e"
  shows "dist_pt (cubic_bezier_at b (1 / real n)) (lerp_pt (s ! 1) (s ! 2) 0.5) \<le> e"
proof -
  define F where "F = (\<lambda>i (error, segment).
                     let segment' = spline_segment s (int n) i segment
                     in (sample_segment b segment' (int n) (TOTAL_STEPS div int n) i error, segment'))"
  from n have "0 < TOTAL_STEPS div int n"
    by (simp add: TOTAL_STEPS_def pos_imp_zdiv_pos_iff)
  then have steps: "1 \<le> TOTAL_STEPS div int n" by simp
  from n have range: "[1..int n] = 1 # 2 # [3..int n]"
    by (simp add: upto_rec1)
  define seg1 where "seg1 = spline_segment s (int n) 1 ((0, 0), (0, 0), (0, 0))"
  define e1 where "e1 = sample_segment b seg1 (int n) (TOTAL_STEPS div int n) 1 0"
  define seg2 where "seg2 = spline_segment s (int n) 2 seg1"
  define e2 where "e2 = sample_segment b seg2 (int n) (TOTAL_STEPS div int n) 2 e1"
  from d len n have "e = fst (fold F [1..int n] (0, ((0, 0), (0, 0), (0, 0))))"
    by (simp add: curve_spline_dist_def F_def Let_def)
  also have "\<dots> = fst (fold F [3..int n] (e2, seg2))"
    by (simp add: range F_def e2_def seg2_def e1_def seg1_def Let_def)
  finally have "e2 \<le> e"
    using outer_fold_ge [of e2 s "int n" b "TOTAL_STEPS div int n" "[3..int n]" seg2]
    by (simp add: F_def)
  moreover have "fst seg2 = lerp_pt (s ! 1) (s ! 2) 0.5"
    using n by (simp add: seg2_def seg1_def spline_segment_def)
  then have "quadratic_bezier_at seg2 0 = lerp_pt (s ! 1) (s ! 2) 0.5"
    by (simp add: quadratic_bezier_at_0)
  with sample_segment_first [OF steps, of b 2 "int n" seg2 e1]
  have "dist_pt (cubic_bezier_at b (1 / real n)) (lerp_pt (s ! 1) (s ! 2) 0.5) \<le> e2"
    by (simp add: e2_def)
  ultimately show ?thesis by simp
qed

lemma spline_nth_1:
  assumes "2 \<le> n" and "cubic_approx_spline p n = Some s"
  shows "s ! 1 = fst (snd (cubic_approx (split_piece (calcCubicParameters p) 0 (1 / real n)) 0))"
  using assms
  by (auto simp: cubic_approx_spline_def splitCubicAtT_def Let_def nth_append nth_Cons')

lemma spline_nth_2:
  assumes "2 \<le> n" and "cubic_approx_spline p n = Some s"
  shows "s ! 2 = fst (snd (cubic_approx
           (split_piece (calcCubicParameters p) (1 / real n) (2 / real n)) (1 / (real n - 1))))"
proof (cases "n = 2")
  case True
  with assms(2) show ?thesis
    by (auto simp: cubic_approx_spline_def splitCubicAtT_def Let_def nth_append nth_Cons')
next
  case False
  with assms have "3 \<le> n" by simp
  with assms(2) show ?thesis
    by (auto simp: cubic_approx_spline_def splitCubicAtT_def Let_def nth_append nth_Cons')
qed

text \<open>
  The curve \<open>bump_cubic\<close> = (0,0),(0,1),(1,1),(1,0): its candidate for one segment is
  absent, that for two segments has the sampled error 147/4000, and at no segment count
  up to 20 is the sampled error 0.
\<close>

lemma bump_cubic_1: "cubic_approx_spline bump_cubic 1 = None"
  using cubic_approx_spline_1 [of bump_cubic] by (simp add: bump_cubic_def)

lemma bump_cubic_2:
  "cubic_approx_spline bump_cubic 2 = Some [(0, 0), (0, 3 / 4), (1, 3 / 4), (1, 0)]"
  by (simp add: bump_cubic_def cubic_approx_spline_def splitCubicAtT_def
      calcCubicParameters_def split_piece_def calcCubicPoints_def cubic_approx_def lerp_def
      Let_def upt_rec numeral_2_eq_2)

lemma sqrt_21609: "sqrt (21609 / 16000000) = 147 / 4000"
  by (rule real_sqrt_unique) (simp_all add: power2_eq_square)

lemma bump_cubic_dist_2:
  "curve_spline_dist bump_cubic [(0, 0), (0, 3 / 4), (1, 3 / 4), (1, 0)] = Inr (147 / 4000)"
proof -
  have "curve_spline_dist bump_cubic [(0, 0), (0, 3 / 4), (1, 3 / 4), (1, 0)]
          = Inr (sqrt (21609 / 16000000))"
    by (simp add: bump_cubic_def curve_spline_dist_def TOTAL_STEPS_def spline_segment_def
        sample_segment_def hypot_def lerp_def upto.simps Let_def)
  then show ?thesis by (simp only: sqrt_21609)
qed

lemma bump_cubic_result:
  "curve_to_quadratic bump_cubic (1 / 10)
     = Inr ([(0, 0), (0, 3 / 4), (1, 3 / 4), (1, 0)], 147 / 4000)"
  using curve_to_quadratic_at_2 [OF bump_cubic_1 bump_cubic_2 bump_cubic_dist_2] by simp

lemma bump_cubic_unsampled:
  "\<exists>s. cubic_approx_spline bump_cubic 21 = Some s \<and> length s = 23
       \<and> curve_spline_dist bump_cubic s = Inr 0"
proof -
  obtain s where s: "cubic_approx_spline bump_cubic 21 = Some s"
    using cubic_approx_spline_some [of 21 bump_cubic] by auto
  then have "length s = 23" using cubic_approx_spline_length [of 21 bump_cubic s] by simp
  with s show ?thesis by (simp add: curve_spline_dist_zero)
qed

lemma bump_joint_gap:
  "list_all (\<lambda>n. 0 < dist_pt (cubic_bezier_at bump_cubic (1 / real n))
       (lerp_pt
          (fst (snd (cubic_approx
             (split_piece (calcCubicParameters bump_cubic) 0 (1 / real n)) 0)))
          (fst (snd (cubic_approx
             (split_piece (calcCubicParameters bump_cubic) (1 / real n) (2 / real n))
             (1 / (real n - 1)))))
          0.5))
     [3..<21]"
  by (simp add: bump_cubic_def calcCubicParameters_def split_piece_def calcCubicPoints_def
      cubic_approx_def lerp_def hypot_def Let_def)

lemma bump_joint:
  assumes "3 \<le> n" and "n \<le> 20"
  shows "\<not> satisfies bump_cubic 0 n"
proof
  assume "satisfies bump_cubic 0 n"
  then obtain s e where s: "cubic_approx_spline bump_cubic n = Some s"
    and e: "curve_spline_dist bump_cubic s = Inr e" and e0: "e \<le> 0"
    by (auto simp: satisfies_def)
  from assms(1) have n2: "2 \<le> n" by simp
  from assms(1) s have len: "length s = n + 2"
    using cubic_approx_spline_length [of n bump_cubic s] by simp
  from joint_sample [OF len n2 assms(2) e] e0
  have "dist_pt (cubic_bezier_at bump_cubic (1 / real n)) (lerp_pt (s ! 1) (s ! 2) 0.5) \<le> 0"
    by simp
  then have z: "dist_pt (cubic_bezier_at bump_cubic (1 / real n))
       (lerp_pt
          (fst (snd (cubic_approx
             (split_piece (calcCubicParameters bump_cubic) 0 (1 / real n)) 0)))
          (fst (snd (cubic_approx
             (split_piece (calcCubicParameters bump_cubic) (1 / real n) (2 / real n))
             (1 / (real n - 1)))))
          0.5) \<le> 0"
    by (simp only: spline_nth_1 [OF n2 s] spline_nth_2 [OF n2 s])
  have mem: "n \<in> set [3..<21]"
    unfolding set_upt using assms by simp
  from bump_joint_gap [unfolded list_all_iff, rule_format, OF mem] z
  show False by simp
qed

lemma bump_cubic_inexact:
  assumes "1 \<le> n" and "n \<le> 20"
  shows "\<not> satisfies bump_cubic 0 n"
proof -
  from assms consider "n = 1" | "n = 2" | "3 \<le> n" by arith
  then show ?thesis
  proof cases
    case 1
    with bump_cubic_1 show ?thesis by (simp add: satisfies_def)
  next
    case 2
    with bump_cubic_2 bump_cubic_dist_2 show ?thesis by (simp add: satisfies_def)
  next
    case 3
    then show ?thesis using assms(2) by (rule bump_joint)
  qed
qed

text \<open>
  C1.  If \<^verbatim>\<open>curve_to_quadratic(p, max_error)\<close> returns \<open>(spline, error)\<close>, then \<open>error\<close>
  is \<^verbatim>\<open>curve_spline_dist(p, spline)\<close> and \<open>error \<le> max_error\<close>: no spline whose sampled
  error exceeds the tolerance is returned.  This holds for every tolerance, so for
  every tolerance that is not negative.
\<close>

theorem curve_to_quadratic_within_tolerance:
  assumes "curve_to_quadratic p max_err = Inr (spline, error)"
  shows "curve_spline_dist p spline = Inr error \<and> error \<le> max_err"
  using for_break [OF curve_to_quadratic_break [OF assms]] by blast

theorem curve_to_quadratic_within_tolerance_witness:
  "curve_to_quadratic arch_cubic 0 = Inr ([(0, 0), (3, 3), (6, 0)], 0)
   \<and> curve_spline_dist arch_cubic [(0, 0), (3, 3), (6, 0)] = Inr 0
   \<and> (0::real) \<le> 0"
  using curve_to_quadratic_within_tolerance [OF arch_cubic_result] arch_cubic_result
  by simp

text \<open>
  C3.  If \<^verbatim>\<open>curve_to_quadratic(p, max_error)\<close> returns a spline of \<open>n\<close> segments, then
  \<open>n\<close> is in 1..100, the spline is \<^verbatim>\<open>cubic_approx_spline(p, n)\<close>, \<open>n\<close> satisfies the
  tolerance and no smaller \<open>m \<ge> 1\<close> does: the search stops at the first satisfying
  segment count.
\<close>

theorem curve_to_quadratic_smallest_n:
  assumes "curve_to_quadratic p max_err = Inr (spline, error)"
  shows "\<exists>n. length spline = n + 2 \<and> 1 \<le> n \<and> n \<le> 100
           \<and> cubic_approx_spline p n = Some spline
           \<and> satisfies p max_err n
           \<and> (\<forall>m. 1 \<le> m \<and> m < n \<longrightarrow> \<not> satisfies p max_err m)"
proof -
  from for_break [OF curve_to_quadratic_break [OF assms]]
  obtain n where n: "1 \<le> n" "n < MAX_N + 1"
    "cubic_approx_spline p n = Some spline" "curve_spline_dist p spline = Inr error"
    "error \<le> max_err" "\<forall>m. 1 \<le> m \<and> m < n \<longrightarrow> \<not> satisfies p max_err m" by blast
  from n(1,3) have "length spline = n + 2" by (rule cubic_approx_spline_length)
  moreover from n(3,4,5) have "satisfies p max_err n" by (auto simp: satisfies_def)
  moreover from n(2) have "n \<le> 100" by (simp add: MAX_N_def)
  ultimately show ?thesis using n(1,3,6) by (intro exI [of _ n]) simp
qed

theorem curve_to_quadratic_smallest_n_witness:
  "curve_to_quadratic bump_cubic (1 / 10)
     = Inr ([(0, 0), (0, 3 / 4), (1, 3 / 4), (1, 0)], 147 / 4000)
   \<and> (\<exists>n. length ([(0, 0), (0, 3 / 4), (1, 3 / 4), (1, 0)] :: point list) = n + 2
           \<and> 1 \<le> n \<and> n \<le> 100
           \<and> cubic_approx_spline bump_cubic n = Some [(0, 0), (0, 3 / 4), (1, 3 / 4), (1, 0)]
           \<and> satisfies bump_cubic (1 / 10) n
           \<and> (\<forall>m. 1 \<le> m \<and> m < n \<longrightarrow> \<not> satisfies bump_cubic (1 / 10) m))
   \<and> (\<exists>s. cubic_approx_spline bump_cubic 21 = Some s \<and> length s = 23
           \<and> curve_spline_dist bump_cubic s = Inr 0)"
  by (intro conjI bump_cubic_result bump_cubic_unsampled
        curve_to_quadratic_smallest_n [OF bump_cubic_result])

text \<open>
  With a tolerance that is not negative the search never runs to its end: the candidate
  of 21 segments is not sampled, its error is reported as 0, and the loop stops there
  at the latest.
\<close>

lemma never_exhausts:
  assumes "0 \<le> max_err"
  shows "\<exists>s e n. curve_to_quadratic p max_err = Inr (s, e) \<and> 0 \<le> e
            \<and> length s = n + 2 \<and> 1 \<le> n \<and> n \<le> 21"
proof -
  from for_succeeds [OF assms] obtain s e where
    run: "curve_to_quadratic_for p max_err [1..<MAX_N + 1] (None, None) = Inr (Break (s, e))"
    by blast
  from for_break [OF this] obtain n where n: "1 \<le> n" "cubic_approx_spline p n = Some s"
    "curve_spline_dist p s = Inr e" "\<forall>m. 1 \<le> m \<and> m < n \<longrightarrow> \<not> satisfies p max_err m"
    by blast
  have "n \<le> 21"
  proof (rule ccontr)
    assume "\<not> n \<le> 21"
    with n(4) have "\<not> satisfies p max_err 21" by simp
    with assms show False using satisfies_21 [of 21 max_err p] by simp
  qed
  moreover from n(1,2) have "length s = n + 2" by (rule cubic_approx_spline_length)
  moreover from dist_of_candidate [OF n(1,2)] n(3) have "0 \<le> e" by simp
  moreover from run have "curve_to_quadratic p max_err = Inr (s, e)"
    by (simp add: curve_to_quadratic_def del: upt_Suc)
  ultimately show ?thesis using n(1) by blast
qed


text \<open>
  C7, evaluated on the code at \<open>bump_cubic\<close> = (0,0),(0,1),(1,1),(1,0), a curve with a
  cubic term, and \<open>max_err = 0\<close>: the call does not fail.  It returns the candidate of
  21 segments (23 points), the first one that is not sampled, with a reported error
  of 0.
\<close>

theorem curve_to_quadratic_zero_tolerance_returns:
  "\<exists>s. cubic_approx_spline bump_cubic 21 = Some s \<and> length s = 23
       \<and> curve_to_quadratic bump_cubic 0 = Inr (s, 0)"
proof -
  from for_succeeds [of 0 bump_cubic] obtain s e where
    run: "curve_to_quadratic_for bump_cubic 0 [1..<MAX_N + 1] (None, None) = Inr (Break (s, e))"
    by auto
  from for_break [OF this] obtain n where n: "1 \<le> n" "cubic_approx_spline bump_cubic n = Some s"
    "curve_spline_dist bump_cubic s = Inr e" "e \<le> 0"
    "\<forall>m. 1 \<le> m \<and> m < n \<longrightarrow> \<not> satisfies bump_cubic 0 m"
    by blast
  from n(2,3,4) have sat: "satisfies bump_cubic 0 n" by (auto simp: satisfies_def)
  have "n \<le> 21"
  proof (rule ccontr)
    assume "\<not> n \<le> 21"
    with n(5) have "\<not> satisfies bump_cubic 0 21" by simp
    then show False using satisfies_21 [of 21 0 bump_cubic] by simp
  qed
  moreover have "\<not> n \<le> 20"
    using bump_cubic_inexact [OF n(1)] sat by blast
  ultimately have n21: "n = 21" by simp
  from n(1,2) have "length s = n + 2" by (rule cubic_approx_spline_length)
  moreover from dist_of_candidate [OF n(1,2)] n(3,4) have "e = 0" by simp
  moreover from run have "curve_to_quadratic bump_cubic 0 = Inr (s, e)"
    by (simp add: curve_to_quadratic_def del: upt_Suc)
  ultimately show ?thesis using n(2) n21 by simp
qed

section \<open>Straight cubics\<close>






section \<open>Batch search: properties\<close>

lemma truthy_candidates:
  assumes "1 \<le> n"
  shows "list_all truthy (map (\<lambda>c. cubic_approx_spline c n) curves)
           \<longleftrightarrow> (\<forall>c \<in> set curves. cubic_approx_spline c n \<noteq> None)"
proof -
  have "truthy (cubic_approx_spline c n) \<longleftrightarrow> cubic_approx_spline c n \<noteq> None" for c
  proof (cases "cubic_approx_spline c n")
    case None
    then show ?thesis by (simp add: truthy_def)
  next
    case (Some s)
    with assms have "length s = n + 2" by (simp add: cubic_approx_spline_length)
    then have "s \<noteq> []" by auto
    with Some show ?thesis by (simp add: truthy_def)
  qed
  then show ?thesis by (simp add: list_all_iff)
qed

lemma zip_candidates:
  "zip curves (map f curves) = map (\<lambda>c. (c, f c)) curves"
  by (induction curves) simp_all

lemma spline_dists_candidates:
  assumes "1 \<le> n" and "\<forall>c \<in> set curves. cubic_approx_spline c n \<noteq> None"
  shows "\<exists>errs. spline_dists (map (\<lambda>c. (c, cubic_approx_spline c n)) curves) = Inr errs
           \<and> length errs = length curves
           \<and> (\<forall>i < length curves. \<exists>s. cubic_approx_spline (curves ! i) n = Some s
                  \<and> curve_spline_dist (curves ! i) s = Inr (errs ! i))"
  using assms(2)
proof (induction curves)
  case Nil
  show ?case by simp
next
  case (Cons c cs)
  then obtain s where s: "cubic_approx_spline c n = Some s" by auto
  with assms(1) obtain e where e: "curve_spline_dist c s = Inr e"
    using dist_of_candidate by blast
  from Cons obtain errs where errs:
    "spline_dists (map (\<lambda>c. (c, cubic_approx_spline c n)) cs) = Inr errs"
    "length errs = length cs"
    "\<forall>i < length cs. \<exists>s. cubic_approx_spline (cs ! i) n = Some s
         \<and> curve_spline_dist (cs ! i) s = Inr (errs ! i)"
    by auto
  have "\<exists>s. cubic_approx_spline ((c # cs) ! i) n = Some s
         \<and> curve_spline_dist ((c # cs) ! i) s = Inr ((e # errs) ! i)"
    if "i < length (c # cs)" for i
    using that s e errs(3) by (cases i) simp_all
  with s e errs(1,2) show ?case
    by (intro exI [of _ "e # errs"]) simp
qed

lemma within_iff:
  assumes "length errs = length curves" and "length max_errors = length curves"
    and "\<forall>i < length curves. \<exists>s. cubic_approx_spline (curves ! i) n = Some s
                  \<and> curve_spline_dist (curves ! i) s = Inr (errs ! i)"
  shows "list_all (\<lambda>(err, max_err). err \<le> max_err) (zip errs max_errors)
           \<longleftrightarrow> all_within curves max_errors n"
proof -
  have "list_all (\<lambda>(err, max_err). err \<le> max_err) (zip errs max_errors)
          \<longleftrightarrow> (\<forall>i < length curves. errs ! i \<le> max_errors ! i)"
    using assms(1,2) by (simp add: list_all_length)
  also have "\<dots> \<longleftrightarrow> all_within curves max_errors n"
    unfolding all_within_def satisfies_def
  proof (intro all_cong1 imp_cong refl)
    fix i
    assume "i < length curves"
    with assms(3) obtain s where "cubic_approx_spline (curves ! i) n = Some s"
      "curve_spline_dist (curves ! i) s = Inr (errs ! i)" by blast
    then show "errs ! i \<le> max_errors ! i \<longleftrightarrow>
      (\<exists>s e. cubic_approx_spline (curves ! i) n = Some s
          \<and> curve_spline_dist (curves ! i) s = Inr e \<and> e \<le> max_errors ! i)"
      by auto
  qed
  finally show ?thesis .
qed

lemma all_within_candidates:
  assumes "all_within curves max_errors n"
  shows "\<forall>c \<in> set curves. cubic_approx_spline c n \<noteq> None"
proof
  fix c
  assume "c \<in> set curves"
  then obtain i where "i < length curves" "curves ! i = c"
    by (meson in_set_conv_nth)
  with assms obtain s where "cubic_approx_spline c n = Some s"
    unfolding all_within_def satisfies_def by blast
  then show "cubic_approx_spline c n \<noteq> None" by simp
qed

text \<open>What one iteration of the batch loop does, by cases.\<close>

lemma body_skip:
  assumes "\<exists>c \<in> set curves. cubic_approx_spline c n = None"
  shows "curves_to_quadratic_body curves max_errors n st
           = Inr (NoBreak (map (\<lambda>c. cubic_approx_spline c n) curves, snd st))"
proof -
  from assms obtain c where "c \<in> set curves" "\<not> truthy (cubic_approx_spline c n)"
    by (auto simp: truthy_def)
  then have "\<not> list_all truthy (map (\<lambda>c. cubic_approx_spline c n) curves)"
    unfolding list_all_iff by (metis image_eqI set_map)
  then show ?thesis
    by (simp add: curves_to_quadratic_body_def Let_def)
qed

lemma body_measured:
  assumes "1 \<le> n" and "length max_errors = length curves"
    and "\<forall>c \<in> set curves. cubic_approx_spline c n \<noteq> None"
  shows "\<exists>errs. spline_dists (zip curves (map (\<lambda>c. cubic_approx_spline c n) curves)) = Inr errs
           \<and> length errs = length curves
           \<and> (list_all (\<lambda>(err, max_err). err \<le> max_err) (zip errs max_errors)
                 \<longleftrightarrow> all_within curves max_errors n)
           \<and> curves_to_quadratic_body curves max_errors n st
               = Inr ((if all_within curves max_errors n then Break else NoBreak)
                        (map (\<lambda>c. cubic_approx_spline c n) curves, map Some errs))"
proof -
  from spline_dists_candidates [OF assms(1,3)] obtain errs where errs:
    "spline_dists (map (\<lambda>c. (c, cubic_approx_spline c n)) curves) = Inr errs"
    "length errs = length curves"
    "\<forall>i < length curves. \<exists>s. cubic_approx_spline (curves ! i) n = Some s
                  \<and> curve_spline_dist (curves ! i) s = Inr (errs ! i)"
    by blast
  note w = within_iff [OF errs(2) assms(2) errs(3)]
  from assms(1,3) have t: "list_all truthy (map (\<lambda>c. cubic_approx_spline c n) curves)"
    by (simp add: truthy_candidates)
  show ?thesis
    using errs(1,2) w t
    by (intro exI [of _ errs]) (simp add: curves_to_quadratic_body_def zip_candidates Let_def)
qed


lemma body_break:
  assumes "1 \<le> n" and "length max_errors = length curves"
    and "curves_to_quadratic_body curves max_errors n st = Inr (Break (splines, errors))"
  shows "splines = map (\<lambda>c. cubic_approx_spline c n) curves
       \<and> all_within curves max_errors n
       \<and> (\<exists>errs. spline_dists (zip curves splines) = Inr errs \<and> errors = map Some errs
             \<and> list_all (\<lambda>(err, max_err). err \<le> max_err) (zip errs max_errors))"
proof (cases "\<forall>c \<in> set curves. cubic_approx_spline c n \<noteq> None")
  case True
  from body_measured [OF assms(1,2) True, of st] assms(3) show ?thesis
    by (auto split: if_splits)
next
  case False
  with body_skip [of curves n max_errors st] assms(3) show ?thesis by auto
qed

lemma body_nobreak:
  assumes "1 \<le> n" and "length max_errors = length curves"
    and "curves_to_quadratic_body curves max_errors n st = Inr (NoBreak st')"
  shows "\<not> all_within curves max_errors n
       \<and> fst st' = map (\<lambda>c. cubic_approx_spline c n) curves
       \<and> ((\<forall>c \<in> set curves. cubic_approx_spline c n \<noteq> None) \<longrightarrow>
            (\<exists>errs. spline_dists (zip curves (fst st')) = Inr errs \<and> snd st' = map Some errs
               \<and> length errs = length curves
               \<and> \<not> list_all (\<lambda>(err, max_err). err \<le> max_err) (zip errs max_errors)))"
proof (cases "\<forall>c \<in> set curves. cubic_approx_spline c n \<noteq> None")
  case True
  from body_measured [OF assms(1,2) True, of st] assms(3) show ?thesis
    by (auto split: if_splits)
next
  case False
  then have "\<not> all_within curves max_errors n"
    using all_within_candidates [of curves max_errors n] by blast
  moreover from False body_skip [of curves n max_errors st] assms(3)
  have "st' = (map (\<lambda>c. cubic_approx_spline c n) curves, snd st)" by simp
  ultimately show ?thesis using False by auto
qed


lemma fors_break:
  assumes "length max_errors = length curves" and "1 \<le> a"
    and "curves_to_quadratic_for curves max_errors [a..<b] st = Inr (Break (splines, errors))"
  shows "\<exists>n. a \<le> n \<and> n < b
           \<and> splines = map (\<lambda>c. cubic_approx_spline c n) curves
           \<and> all_within curves max_errors n
           \<and> (\<exists>errs. spline_dists (zip curves splines) = Inr errs \<and> errors = map Some errs
                 \<and> list_all (\<lambda>(err, max_err). err \<le> max_err) (zip errs max_errors))
           \<and> (\<forall>m. a \<le> m \<and> m < n \<longrightarrow> \<not> all_within curves max_errors m)"
  using assms(2,3)
proof (induction "b - a" arbitrary: a st)
  case 0
  then show ?case by simp
next
  case (Suc k)
  then have ab: "a < b" and k: "k = b - Suc a" by simp_all
  note run = Suc.prems(2) [unfolded upt_conv_Cons [OF ab]]
  show ?case
  proof (cases "curves_to_quadratic_body curves max_errors a st")
    case (Inl e')
    with run show ?thesis by simp
  next
    case (Inr r)
    show ?thesis
    proof (cases r)
      case (Break x)
      with run Inr have "curves_to_quadratic_body curves max_errors a st
                           = Inr (Break (splines, errors))" by simp
      from body_break [OF Suc.prems(1) assms(1) this] ab show ?thesis
        by (intro exI [of _ a]) auto
    next
      case (NoBreak st1)
      with Inr body_nobreak [OF Suc.prems(1) assms(1)]
      have na: "\<not> all_within curves max_errors a" by blast
      from run Inr NoBreak
      have "curves_to_quadratic_for curves max_errors [Suc a..<b] st1
              = Inr (Break (splines, errors))" by simp
      from Suc.hyps(1) [OF k _ this] obtain n where n: "Suc a \<le> n" "n < b"
        "splines = map (\<lambda>c. cubic_approx_spline c n) curves"
        "all_within curves max_errors n"
        "\<exists>errs. spline_dists (zip curves splines) = Inr errs \<and> errors = map Some errs
                 \<and> list_all (\<lambda>(err, max_err). err \<le> max_err) (zip errs max_errors)"
        "\<forall>m. Suc a \<le> m \<and> m < n \<longrightarrow> \<not> all_within curves max_errors m"
        by auto
      have "\<not> all_within curves max_errors m" if "a \<le> m \<and> m < n" for m
        using that na n(6) by (cases "m = a") auto
      with n show ?thesis by (intro exI [of _ n]) auto
    qed
  qed
qed

lemma fors_nobreak:
  assumes "length max_errors = length curves" and "1 \<le> a" and "a < b"
    and "curves_to_quadratic_for curves max_errors [a..<b] st = Inr (NoBreak st')"
  shows "(\<forall>m. a \<le> m \<and> m < b \<longrightarrow> \<not> all_within curves max_errors m)
       \<and> fst st' = map (\<lambda>c. cubic_approx_spline c (b - 1)) curves
       \<and> ((\<forall>c \<in> set curves. cubic_approx_spline c (b - 1) \<noteq> None) \<longrightarrow>
            (\<exists>errs. spline_dists (zip curves (fst st')) = Inr errs \<and> snd st' = map Some errs
               \<and> length errs = length curves
               \<and> \<not> list_all (\<lambda>(err, max_err). err \<le> max_err) (zip errs max_errors)))"
  using assms(2,3,4)
proof (induction "b - a" arbitrary: a st)
  case 0
  then show ?case by simp
next
  case (Suc k)
  then have ab: "a < b" and k: "k = b - Suc a" by simp_all
  note run = Suc.prems(3) [unfolded upt_conv_Cons [OF ab]]
  from run obtain st1 where body: "curves_to_quadratic_body curves max_errors a st = Inr (NoBreak st1)"
    and rest: "curves_to_quadratic_for curves max_errors [Suc a..<b] st1 = Inr (NoBreak st')"
    by (auto split: sum.splits for_result.splits)
  note here = body_nobreak [OF Suc.prems(1) assms(1) body]
  show ?case
  proof (cases "Suc a < b")
    case False
    with ab have b: "b = Suc a" by simp
    with rest have "st' = st1" by simp
    with here b show ?thesis by (auto simp: less_Suc_eq_le)
  next
    case True
    have sa: "1 \<le> Suc a" by simp
    from Suc.hyps(1) [OF k sa True rest]
    have later: "(\<forall>m. Suc a \<le> m \<and> m < b \<longrightarrow> \<not> all_within curves max_errors m)
       \<and> fst st' = map (\<lambda>c. cubic_approx_spline c (b - 1)) curves
       \<and> ((\<forall>c \<in> set curves. cubic_approx_spline c (b - 1) \<noteq> None) \<longrightarrow>
            (\<exists>errs. spline_dists (zip curves (fst st')) = Inr errs \<and> snd st' = map Some errs
               \<and> length errs = length curves
               \<and> \<not> list_all (\<lambda>(err, max_err). err \<le> max_err) (zip errs max_errors)))" .
    have "\<not> all_within curves max_errors m" if "a \<le> m \<and> m < b" for m
      using that here later by (cases "m = a") auto
    with later show ?thesis by blast
  qed
qed

text \<open>The \<^verbatim>\<open>else\<close> branch: which curve is reported.\<close>

lemma raise_offending_none:
  "raise_offending xs = None \<longleftrightarrow>
     (\<forall>x \<in> set xs. fst (snd x) \<noteq> None
         \<and> (\<exists>e. fst (snd (snd x)) = Some e \<and> e \<le> snd (snd (snd x))))"
  by (induction xs rule: raise_offending.induct) (auto split: option.splits)

lemma raise_offending_first:
  assumes "raise_offending xs = Some err"
    and "\<forall>x \<in> set xs. fst (snd x) \<noteq> None \<and> fst (snd (snd x)) \<noteq> None"
  shows "\<exists>i e. i < length xs \<and> fst (snd (snd (xs ! i))) = Some e
            \<and> snd (snd (snd (xs ! i))) < e
            \<and> err = ApproxNotFoundError (fst (xs ! i)) (Some e)
            \<and> (\<forall>j < i. \<exists>e'. fst (snd (snd (xs ! j))) = Some e'
                   \<and> e' \<le> snd (snd (snd (xs ! j))))"
  using assms
proof (induction xs rule: raise_offending.induct)
  case 1
  then show ?case by simp
next
  case (2 c s error max_err rest)
  from "2.prems"(2) obtain e where e: "error = Some e" and s: "s \<noteq> None" by auto
  show ?case
  proof (cases "e > max_err")
    case True
    with "2.prems"(1) e s have "err = ApproxNotFoundError c (Some e)" by simp
    with True e show ?thesis by (intro exI [of _ 0] exI [of _ e]) simp
  next
    case False
    with "2.prems"(1) e s have "raise_offending rest = Some err" by simp
    with "2.IH" [OF s e False] "2.prems"(2)
    obtain i e' where i: "i < length rest" "fst (snd (snd (rest ! i))) = Some e'"
      "snd (snd (snd (rest ! i))) < e'" "err = ApproxNotFoundError (fst (rest ! i)) (Some e')"
      "\<forall>j < i. \<exists>e'. fst (snd (snd (rest ! j))) = Some e' \<and> e' \<le> snd (snd (snd (rest ! j)))"
      by auto
    have "\<exists>e'. fst (snd (snd (((c, s, error, max_err) # rest) ! j))) = Some e'
            \<and> e' \<le> snd (snd (snd (((c, s, error, max_err) # rest) ! j)))"
      if "j < Suc i" for j
      using that i(5) e False by (cases j) auto
    with i(1-4) show ?thesis
      by (intro exI [of _ "Suc i"] exI [of _ e']) simp
  qed
qed

lemma exhausted_raises:
  assumes len: "length max_errors = length curves"
    and run: "curves_to_quadratic_for curves max_errors [1..<MAX_N + 1] st
                = Inr (NoBreak (splines, errors))"
  shows "\<exists>i s e. i < length curves
           \<and> cubic_approx_spline (curves ! i) MAX_N = Some s
           \<and> curve_spline_dist (curves ! i) s = Inr e
           \<and> max_errors ! i < e
           \<and> (\<forall>j < i. satisfies (curves ! j) (max_errors ! j) MAX_N)
           \<and> raise_offending (zip curves (zip splines (zip errors max_errors)))
               = Some (ApproxNotFoundError (curves ! i) (Some e))"
proof -
  have exist: "\<forall>c \<in> set curves. cubic_approx_spline c MAX_N \<noteq> None"
    using cubic_approx_spline_some [of MAX_N] by (auto simp: MAX_N_def)
  have one: "1 \<le> MAX_N" by (simp add: MAX_N_def)
  from fors_nobreak [OF len _ _ run] exist
  obtain errs where sp: "splines = map (\<lambda>c. cubic_approx_spline c MAX_N) curves"
    and d: "spline_dists (zip curves splines) = Inr errs"
    and er: "errors = map Some errs"
    and le: "length errs = length curves"
    and bad: "\<not> list_all (\<lambda>(err, max_err). err \<le> max_err) (zip errs max_errors)"
    by (auto simp: MAX_N_def)
  from spline_dists_candidates [OF one exist] d sp
  have at: "\<forall>i < length curves. \<exists>s. cubic_approx_spline (curves ! i) MAX_N = Some s
                  \<and> curve_spline_dist (curves ! i) s = Inr (errs ! i)"
    by (simp add: zip_candidates)
  define xs where "xs = zip curves (zip splines (zip errors max_errors))"
  have lx: "length xs = length curves"
    by (simp add: xs_def sp er le len)
  have nth: "xs ! i = (curves ! i, cubic_approx_spline (curves ! i) MAX_N,
                       Some (errs ! i), max_errors ! i)" if "i < length curves" for i
    using that by (simp add: xs_def sp er le len)
  have some: "\<forall>x \<in> set xs. fst (snd x) \<noteq> None \<and> fst (snd (snd x)) \<noteq> None"
  proof
    fix x
    assume "x \<in> set xs"
    then obtain i where "i < length xs" "x = xs ! i" by (metis in_set_conv_nth)
    with lx nth at show "fst (snd x) \<noteq> None \<and> fst (snd (snd x)) \<noteq> None" by auto
  qed
  have "raise_offending xs \<noteq> None"
  proof
    assume "raise_offending xs = None"
    then have "\<forall>x \<in> set xs. \<exists>e. fst (snd (snd x)) = Some e \<and> e \<le> snd (snd (snd x))"
      by (simp add: raise_offending_none)
    then have "errs ! i \<le> max_errors ! i" if "i < length curves" for i
      using that nth [OF that] lx nth_mem [of i xs] by fastforce
    then have "list_all (\<lambda>(err, max_err). err \<le> max_err) (zip errs max_errors)"
      by (simp add: list_all_length le len)
    with bad show False by simp
  qed
  then obtain err where err: "raise_offending xs = Some err" by auto
  from raise_offending_first [OF err some] obtain i e where i: "i < length xs"
    "fst (snd (snd (xs ! i))) = Some e" "snd (snd (snd (xs ! i))) < e"
    "err = ApproxNotFoundError (fst (xs ! i)) (Some e)"
    "\<forall>j < i. \<exists>e'. fst (snd (snd (xs ! j))) = Some e' \<and> e' \<le> snd (snd (snd (xs ! j)))"
    by blast
  from i(1) lx have il: "i < length curves" by simp
  from i(2) nth [OF il] have e: "e = errs ! i" by simp
  from at il e obtain s where s: "cubic_approx_spline (curves ! i) MAX_N = Some s"
    "curve_spline_dist (curves ! i) s = Inr e" by auto
  have "satisfies (curves ! j) (max_errors ! j) MAX_N" if "j < i" for j
  proof -
    from that il have jl: "j < length curves" by simp
    with at obtain s' where "cubic_approx_spline (curves ! j) MAX_N = Some s'"
      "curve_spline_dist (curves ! j) s' = Inr (errs ! j)" by auto
    moreover from i(5) that nth [OF jl] have "errs ! j \<le> max_errors ! j" by auto
    ultimately show ?thesis by (auto simp: satisfies_def)
  qed
  moreover from i(3) nth [OF il] have "max_errors ! i < e" by simp
  moreover from i(4) nth [OF il] err
  have "raise_offending xs = Some (ApproxNotFoundError (curves ! i) (Some e))" by simp
  ultimately show ?thesis using il s unfolding xs_def by blast
qed

lemma candidates_length:
  assumes "1 \<le> n" and "all_within curves max_errors n"
  shows "\<forall>s \<in> set (map (\<lambda>c. cubic_approx_spline c n) curves). \<exists>l. s = Some l \<and> length l = n + 2"
proof
  fix s
  assume "s \<in> set (map (\<lambda>c. cubic_approx_spline c n) curves)"
  then obtain c where c: "c \<in> set curves" "s = cubic_approx_spline c n" by auto
  with all_within_candidates [OF assms(2)] obtain l where l: "cubic_approx_spline c n = Some l"
    by auto
  from assms(1) l have "length l = n + 2" by (rule cubic_approx_spline_length)
  with c(2) l show "\<exists>l. s = Some l \<and> length l = n + 2" by simp
qed

lemma arch_cubic_2:
  "cubic_approx_spline arch_cubic 2 = Some [(0, 0), (3 / 2, 3 / 2), (9 / 2, 3 / 2), (6, 0)]"
  by (simp add: arch_cubic_def cubic_approx_spline_def splitCubicAtT_def
      calcCubicParameters_def split_piece_def calcCubicPoints_def cubic_approx_def lerp_def
      Let_def upt_rec numeral_2_eq_2)

lemma arch_cubic_dist_2:
  "curve_spline_dist arch_cubic [(0, 0), (3 / 2, 3 / 2), (9 / 2, 3 / 2), (6, 0)] = Inr 0"
  by (simp add: arch_cubic_def curve_spline_dist_def TOTAL_STEPS_def spline_segment_def
      sample_segment_def hypot_def lerp_def upto.simps Let_def)

lemma batch_result:
  "curves_to_quadratic [straight_cubic, arch_cubic] [0, 0]
     = Inr ([Some [(0, 0), (3 / 4, 0), (9 / 4, 0), (3, 0)],
             Some [(0, 0), (3 / 2, 3 / 2), (9 / 2, 3 / 2), (6, 0)]],
            [Some 0, Some 0])"
proof -
  have "[1..<MAX_N + 1] = 1 # 2 # [3..<MAX_N + 1]"
    by (simp add: MAX_N_def upt_conv_Cons del: upt_Suc)
  then show ?thesis
    using straight_cubic_1 arch_cubic_1 straight_cubic_2 arch_cubic_2
      straight_cubic_dist arch_cubic_dist_2
    by (simp add: curves_to_quadratic_def curves_to_quadratic_body_def truthy_def
        del: upt_Suc)
qed

lemma batch_needs_two:
  "satisfies arch_cubic 0 1 \<and> \<not> all_within [straight_cubic, arch_cubic] [0, 0] 1"
proof -
  have "satisfies arch_cubic 0 1"
    using arch_cubic_1 arch_cubic_dist by (simp add: satisfies_def)
  moreover have "\<not> satisfies straight_cubic 0 1"
    using straight_cubic_1 by (simp add: satisfies_def)
  then have "\<not> all_within [straight_cubic, arch_cubic] [0, 0] 1"
    unfolding all_within_def by (auto intro: exI [of _ 0])
  ultimately show ?thesis by simp
qed

text \<open>
  C8.  When \<^verbatim>\<open>curves_to_quadratic\<close> succeeds, the splines returned are the candidates
  of all curves for one segment count \<open>n\<close> in 1..100, each of length \<open>n + 2\<close>; the errors
  are those sampled at that \<open>n\<close>; at \<open>n\<close> every curve has a candidate whose error is
  within its own tolerance, and at no smaller \<open>m \<ge> 1\<close> is that so.  An iteration in which
  some curve has no candidate leaves the errors of the state as they were: none is
  computed, and the loop goes on.
\<close>

theorem curves_to_quadratic_shared_n:
  assumes "curves_to_quadratic curves max_errors = Inr (splines, errors)"
  shows "\<exists>n. 1 \<le> n \<and> n \<le> 100
           \<and> splines = map (\<lambda>c. cubic_approx_spline c n) curves
           \<and> (\<forall>s \<in> set splines. \<exists>l. s = Some l \<and> length l = n + 2)
           \<and> (\<exists>errs. spline_dists (zip curves splines) = Inr errs \<and> errors = map Some errs)
           \<and> all_within curves max_errors n
           \<and> (\<forall>m. 1 \<le> m \<and> m < n \<longrightarrow> \<not> all_within curves max_errors m)
           \<and> (\<forall>m st. (\<exists>c \<in> set curves. cubic_approx_spline c m = None) \<longrightarrow>
                 curves_to_quadratic_body curves max_errors m st
                   = Inr (NoBreak (map (\<lambda>c. cubic_approx_spline c m) curves, snd st)))"
proof -
  from assms have len: "length max_errors = length curves"
    by (auto simp: curves_to_quadratic_def Let_def split: if_splits)
  define r where "r = curves_to_quadratic_for curves max_errors [1..<MAX_N + 1]
                   (replicate (length curves) None, replicate (length curves) None)"
  have "r = Inr (Break (splines, errors))"
  proof (cases r)
    case (Inl e)
    with assms len show ?thesis
      by (simp add: curves_to_quadratic_def r_def del: upt_Suc)
  next
    case (Inr fr)
    show ?thesis
    proof (cases fr)
      case (Break x)
      with Inr assms len show ?thesis
        by (cases x) (simp add: curves_to_quadratic_def r_def del: upt_Suc)
    next
      case (NoBreak st')
      obtain sp er where st': "st' = (sp, er)" by (cases st')
      from exhausted_raises [OF len Inr [unfolded r_def NoBreak st']]
      obtain e where "raise_offending (zip curves (zip sp (zip er max_errors))) = Some e"
        by blast
      with Inr NoBreak st' assms len show ?thesis
        by (simp add: curves_to_quadratic_def r_def del: upt_Suc)
    qed
  qed
  from fors_break [OF len _ this [unfolded r_def]]
  obtain n where n: "1 \<le> n" "n < MAX_N + 1"
    "splines = map (\<lambda>c. cubic_approx_spline c n) curves"
    "all_within curves max_errors n"
    "\<exists>errs. spline_dists (zip curves splines) = Inr errs \<and> errors = map Some errs
        \<and> list_all (\<lambda>(err, max_err). err \<le> max_err) (zip errs max_errors)"
    "\<forall>m. 1 \<le> m \<and> m < n \<longrightarrow> \<not> all_within curves max_errors m"
    by auto
  from n(2) have "n \<le> 100" by (simp add: MAX_N_def)
  moreover from candidates_length [OF n(1,4)] n(3)
  have "\<forall>s \<in> set splines. \<exists>l. s = Some l \<and> length l = n + 2" by simp
  moreover from n(5)
  have "\<exists>errs. spline_dists (zip curves splines) = Inr errs \<and> errors = map Some errs" by blast
  moreover have "\<forall>m st. (\<exists>c \<in> set curves. cubic_approx_spline c m = None) \<longrightarrow>
                 curves_to_quadratic_body curves max_errors m st
                   = Inr (NoBreak (map (\<lambda>c. cubic_approx_spline c m) curves, snd st))"
    using body_skip by blast
  ultimately show ?thesis using n(1,3,4,6) by blast
qed

theorem curves_to_quadratic_shared_n_witness:
  "curves_to_quadratic [straight_cubic, arch_cubic] [0, 0]
     = Inr ([Some [(0, 0), (3 / 4, 0), (9 / 4, 0), (3, 0)],
             Some [(0, 0), (3 / 2, 3 / 2), (9 / 2, 3 / 2), (6, 0)]],
            [Some 0, Some 0])
   \<and> (\<exists>n. 1 \<le> n \<and> n \<le> 100
           \<and> [Some [(0, 0), (3 / 4, 0), (9 / 4, 0), (3, 0)],
               Some [(0, 0), (3 / 2, 3 / 2), (9 / 2, 3 / 2), (6, 0)]]
              = map (\<lambda>c. cubic_approx_spline c n) [straight_cubic, arch_cubic]
           \<and> all_within [straight_cubic, arch_cubic] [0, 0] n
           \<and> (\<forall>m. 1 \<le> m \<and> m < n \<longrightarrow> \<not> all_within [straight_cubic, arch_cubic] [0, 0] m))"
proof (rule conjI [OF batch_result])
  from curves_to_quadratic_shared_n [OF batch_result] obtain n where "1 \<le> n \<and> n \<le> 100
           \<and> [Some [(0, 0), (3 / 4, 0), (9 / 4, 0), (3, 0)],
               Some [(0, 0), (3 / 2, 3 / 2), (9 / 2, 3 / 2), (6, 0)]]
              = map (\<lambda>c. cubic_approx_spline c n) [straight_cubic, arch_cubic]
           \<and> all_within [straight_cubic, arch_cubic] [0, 0] n
           \<and> (\<forall>m. 1 \<le> m \<and> m < n \<longrightarrow> \<not> all_within [straight_cubic, arch_cubic] [0, 0] m)"
    by (elim exE conjE) (rule that, intro conjI, assumption+)
  then show "\<exists>n. 1 \<le> n \<and> n \<le> 100
           \<and> [Some [(0, 0), (3 / 4, 0), (9 / 4, 0), (3, 0)],
               Some [(0, 0), (3 / 2, 3 / 2), (9 / 2, 3 / 2), (6, 0)]]
              = map (\<lambda>c. cubic_approx_spline c n) [straight_cubic, arch_cubic]
           \<and> all_within [straight_cubic, arch_cubic] [0, 0] n
           \<and> (\<forall>m. 1 \<le> m \<and> m < n \<longrightarrow> \<not> all_within [straight_cubic, arch_cubic] [0, 0] m)"
    by (rule exI)
qed





end
